theory Spec2Isabelle
  imports Complex_Main "HOL-Library.Word" "HOL-Library.Sublist"
begin

unbundle bit_operations_syntax

section \<open>JavaScript strings\<close>

text \<open>
  A JavaScript string is a sequence of 16-bit code units. \<open>js\<close> writes an ASCII
  literal as such a sequence.
\<close>

type_synonym jschar = "16 word"
type_synonym jsstring = "jschar list"

definition js :: "string \<Rightarrow> jsstring" where
  "js cs = map of_char cs"

text \<open>
  The code units that \<open>String.prototype.trim\<close> strips and that the regular expression
  class \<open>\s\<close> matches (ECMAScript WhiteSpace and LineTerminator): TAB, LF, VT, FF, CR,
  SPACE, NBSP, U+1680, U+2000..U+200A, U+2028, U+2029, U+202F, U+205F, U+3000, U+FEFF.
\<close>

definition is_ws :: "jschar \<Rightarrow> bool" where
  "is_ws c = (c = 0x09 \<or> c = 0x0A \<or> c = 0x0B \<or> c = 0x0C \<or> c = 0x0D \<or> c = 0x20
     \<or> c = 0xA0 \<or> c = 0x1680 \<or> (0x2000 \<le> c \<and> c \<le> 0x200A) \<or> c = 0x2028 \<or> c = 0x2029
     \<or> c = 0x202F \<or> c = 0x205F \<or> c = 0x3000 \<or> c = 0xFEFF)"

definition SPACE :: jschar where
  "SPACE = 0x20"

text \<open>\<open>s.trim()\<close>: strip the leading and the trailing run of white space.\<close>

definition trim :: "jsstring \<Rightarrow> jsstring" where
  "trim s = rev (dropWhile is_ws (rev (dropWhile is_ws s)))"

text \<open>
  \<open>s.replace(/\s\s+/g, ' ')\<close>: scanning from the left, every maximal run of two or
  more white-space code units is replaced by one SPACE; a run of exactly one is kept as
  it is.
\<close>

function collapse :: "jsstring \<Rightarrow> jsstring" where
  "collapse [] = []"
| "collapse (c # cs) =
     (if is_ws c \<and> cs \<noteq> [] \<and> is_ws (hd cs)
      then SPACE # collapse (dropWhile is_ws cs)
      else c # collapse cs)"
  by pat_completeness auto
termination
  by (relation "measure length") (auto simp: length_dropWhile_le less_Suc_eq_le)

text \<open>The code units of a string that are not white space, in order.\<close>

definition non_ws :: "jsstring \<Rightarrow> jsstring" where
  "non_ws s = filter (\<lambda>c. \<not> is_ws c) s"

text \<open>A string is blank when \<open>s.trim()\<close> is the empty (falsy) string.\<close>

definition blank :: "jsstring \<Rightarrow> bool" where
  "blank s = (trim s = [])"


section \<open>The transcript state of the App component\<close>

text \<open>
  \<open>inputTranscription\<close> of a server message: the text and the final flag.
\<close>

record fragment =
  text' :: jsstring
  isFinal :: bool

text \<open>
  The React state and refs of \<open>App\<close> that the transcript logic reads or writes:
  the two \<open>useState\<close> strings, the listening flag and its ref mirror, and
  \<open>silenceTimerRef\<close>. The host's timer table is part of the state: \<open>pending\<close> holds
  the handles that \<open>setTimeout\<close> returned and that have neither fired nor been
  cleared, \<open>next_handle\<close> is the next handle \<open>setTimeout\<close> returns. Timer handles
  are positive numbers, so the test \<open>if (silenceTimerRef.current)\<close> is the test that the
  ref is not null. The session, media stream and audio context refs and the error
  message play no part in the transcript and are left out.

  A state setter called with an updater function queues the updater; React applies
  each queued updater once, in the order issued, before the next event is handled. So
  the model applies an updater at the place where the source issues it, and an updater
  that itself calls the other setter is one update of both strings.
\<close>

record app_state =
  finalizedTranscription :: jsstring
  inProgressTranscription :: jsstring
  isListening :: bool
  isListeningRef :: bool
  silenceTimerRef :: "nat option"
  pending :: "nat set"
  next_handle :: nat

definition clearTimeout :: "nat \<Rightarrow> app_state \<Rightarrow> app_state" where
  "clearTimeout h s = s\<lparr>pending := pending s - {h}\<rparr>"

definition setTimeout :: "app_state \<Rightarrow> nat \<times> app_state" where
  "setTimeout s =
     (next_handle s,
      s\<lparr>pending := insert (next_handle s) (pending s), next_handle := Suc (next_handle s)\<rparr>)"

subsection \<open>The statements of \<open>onmessage\<close>\<close>

text \<open>\<open>if (silenceTimerRef.current) clearTimeout(silenceTimerRef.current);\<close>\<close>

definition cancel_silence_timer :: "app_state \<Rightarrow> app_state" where
  "cancel_silence_timer s =
     (case silenceTimerRef s of None \<Rightarrow> s | Some h \<Rightarrow> clearTimeout h s)"

text \<open>
  The final branch's updater:
  \<open>setInProgressTranscription(cur => { setFinalizedTranscription(fin => (fin + cur + text).trim() + ' '); return ''; })\<close>
\<close>

definition commit_final :: "jsstring \<Rightarrow> app_state \<Rightarrow> app_state" where
  "commit_final t s =
     s\<lparr>finalizedTranscription :=
          trim (finalizedTranscription s @ inProgressTranscription s @ t) @ [SPACE],
       inProgressTranscription := []\<rparr>"

text \<open>\<open>setInProgressTranscription(prev => prev + text)\<close>\<close>

definition append_partial :: "jsstring \<Rightarrow> app_state \<Rightarrow> app_state" where
  "append_partial t s = s\<lparr>inProgressTranscription := inProgressTranscription s @ t\<rparr>"

text \<open>
  The callback handed to \<open>setTimeout\<close>:
  \<open>setInProgressTranscription(cur => { if (cur.trim()) { setFinalizedTranscription(fin => (fin + cur.trim() + ' ').replace(/\s\s+/g, ' ')); } return ''; })\<close>
\<close>

definition silence_timeout :: "app_state \<Rightarrow> app_state" where
  "silence_timeout s =
     (let cur = inProgressTranscription s in
      (if trim cur \<noteq> []
       then s\<lparr>finalizedTranscription :=
                collapse (finalizedTranscription s @ trim cur @ [SPACE])\<rparr>
       else s)
      \<lparr>inProgressTranscription := []\<rparr>)"

text \<open>\<open>silenceTimerRef.current = setTimeout(callback, SILENCE_THRESHOLD_MS)\<close>\<close>

definition schedule_silence_timer :: "app_state \<Rightarrow> app_state" where
  "schedule_silence_timer s =
     (case setTimeout s of (h, s') \<Rightarrow> s'\<lparr>silenceTimerRef := Some h\<rparr>)"

text \<open>
  \<open>onmessage\<close>: a message without \<open>inputTranscription\<close> changes nothing. The statements
  of each branch are written in the order of the source: the final branch clears the
  timer and then issues the commit; the partial branch issues the append, then clears
  the timer, then schedules a new one. The append is a queued updater, applied once the
  handler's own statements have run; clearing the timer does not touch the strings, so
  the state is the same either way.
\<close>

definition onmessage :: "fragment option \<Rightarrow> app_state \<Rightarrow> app_state" where
  "onmessage m s =
     (case m of
        None \<Rightarrow> s
      | Some result \<Rightarrow>
          if isFinal result
          then commit_final (text' result) (cancel_silence_timer s)
          else schedule_silence_timer (cancel_silence_timer (append_partial (text' result) s)))"

subsection \<open>The timer firing\<close>

text \<open>
  The host runs the callback of a pending timer once and drops the handle; a handle that
  was cleared, or that already fired, runs nothing.
\<close>

definition timer_fires :: "nat \<Rightarrow> app_state \<Rightarrow> app_state" where
  "timer_fires h s =
     (if h \<in> pending s then silence_timeout (s\<lparr>pending := pending s - {h}\<rparr>) else s)"

subsection \<open>\<open>stopListening\<close>, \<open>startListening\<close> and the ref effect\<close>

text \<open>
  \<open>stopListening\<close>, up to the teardown of the session and audio handles: the guard on
  \<open>isListeningRef.current\<close>, \<open>setIsListening(false)\<close>, clearing and nulling the timer
  ref, and the updater
  \<open>setInProgressTranscription(cur => { if (cur.trim()) { setFinalizedTranscription(fin => (fin + cur.trim() + ' ').replace(/\s\s+/g, ' ')); } return ''; })\<close>.
\<close>

definition stopListening :: "app_state \<Rightarrow> app_state" where
  "stopListening s =
     (if \<not> isListeningRef s then s
      else
        let s1 = s\<lparr>isListening := False\<rparr>;
            s2 = (case silenceTimerRef s1 of
                    None \<Rightarrow> s1
                  | Some h \<Rightarrow> (clearTimeout h s1)\<lparr>silenceTimerRef := None\<rparr>);
            cur = inProgressTranscription s2;
            s3 = (if trim cur \<noteq> []
                  then s2\<lparr>finalizedTranscription :=
                            collapse (finalizedTranscription s2 @ trim cur @ [SPACE])\<rparr>
                  else s2)
        in s3\<lparr>inProgressTranscription := []\<rparr>)"

text \<open>
  \<open>startListening\<close>, its synchronous head: the guard on \<open>isListening\<close>,
  \<open>setIsListening(true)\<close>, and the reset of both strings.
\<close>

definition startListening :: "app_state \<Rightarrow> app_state" where
  "startListening s =
     (if isListening s then s
      else s\<lparr>isListening := True, finalizedTranscription := [],
             inProgressTranscription := []\<rparr>)"

text \<open>\<open>useEffect(() => { isListeningRef.current = isListening; }, [isListening])\<close>\<close>

definition sync_ref :: "app_state \<Rightarrow> app_state" where
  "sync_ref s = s\<lparr>isListeningRef := isListening s\<rparr>"

subsection \<open>Event sequences\<close>

text \<open>
  The component is driven by one event at a time: a server message, a timer firing, a
  stop request, or the effect that mirrors the listening flag into its ref.
\<close>

datatype event = Message "fragment option" | TimerFires nat | Stop | Effect

fun step :: "event \<Rightarrow> app_state \<Rightarrow> app_state" where
  "step (Message m) s = onmessage m s"
| "step (TimerFires h) s = timer_fires h s"
| "step Stop s = stopListening s"
| "step Effect s = sync_ref s"

definition run :: "event list \<Rightarrow> app_state \<Rightarrow> app_state" where
  "run evs s = fold step evs s"

text \<open>The text delivered by a sequence of events, in arrival order.\<close>

fun delivered :: "event list \<Rightarrow> jsstring" where
  "delivered [] = []"
| "delivered (Message (Some f) # evs) = text' f @ delivered evs"
| "delivered (_ # evs) = delivered evs"

text \<open>
  The state of a freshly mounted component, and the state once \<open>startListening\<close> has
  run and the effect has mirrored the flag.
\<close>

definition mounted :: app_state where
  "mounted = \<lparr>finalizedTranscription = [], inProgressTranscription = [],
              isListening = False, isListeningRef = False, silenceTimerRef = None,
              pending = {}, next_handle = 1\<rparr>"

definition session_start :: app_state where
  "session_start = sync_ref (startListening mounted)"

text \<open>
  What holds of the timer table in every reachable state: only the handle in
  \<open>silenceTimerRef\<close> can be pending, every handle handed out is below \<open>next_handle\<close>,
  and text waits in \<open>inProgressTranscription\<close> only while a timer is pending.
\<close>

definition timer_inv :: "app_state \<Rightarrow> bool" where
  "timer_inv s =
     (pending s \<subseteq> set_option (silenceTimerRef s)
      \<and> (\<forall>h \<in> set_option (silenceTimerRef s). h < next_handle s)
      \<and> (inProgressTranscription s = [] \<or> pending s \<noteq> {}))"


section \<open>The audio frame encoder (\<open>utils/audio.ts\<close>)\<close>

text \<open>
  An element of the \<open>Float32Array\<close> handed to \<open>createBlob\<close> is a finite number, NaN
  or an infinity. \<open>data[i] * 32768\<close> is computed in double precision; a finite
  single-precision value times \<open>2^15\<close> is exact there, so the finite case is the
  product of reals.
\<close>

datatype number = Finite real | NaN | PosInfinity | NegInfinity

fun times_32768 :: "number \<Rightarrow> number" where
  "times_32768 (Finite x) = Finite (x * 32768)"
| "times_32768 NaN = NaN"
| "times_32768 PosInfinity = PosInfinity"
| "times_32768 NegInfinity = NegInfinity"

text \<open>
  Storing a number into an \<open>Int16Array\<close> applies ECMAScript's \<open>ToInt16\<close>: NaN and the
  infinities become 0; a finite number is truncated towards zero and taken modulo
  \<open>2^16\<close>. The sixteen-bit word holds the result; \<open>sint\<close> reads it as the signed
  element.
\<close>

definition js_truncate :: "real \<Rightarrow> int" where
  "js_truncate x = (if 0 \<le> x then \<lfloor>x\<rfloor> else \<lceil>x\<rceil>)"

fun ToInt16 :: "number \<Rightarrow> 16 word" where
  "ToInt16 (Finite x) = word_of_int (js_truncate x)"
| "ToInt16 NaN = 0"
| "ToInt16 PosInfinity = 0"
| "ToInt16 NegInfinity = 0"

text \<open>The loop of \<open>createBlob\<close>: \<open>int16[i] = data[i] * 32768\<close> for every index.\<close>

definition fill_int16 :: "number list \<Rightarrow> 16 word list" where
  "fill_int16 samples = map (\<lambda>x. ToInt16 (times_32768 x)) samples"

text \<open>
  \<open>new Uint8Array(int16.buffer)\<close>: the bytes of the buffer in memory order, which on
  the little-endian hosts that run this code is the low byte of each element followed by
  its high byte.
\<close>

definition int16_bytes :: "16 word \<Rightarrow> 8 word list" where
  "int16_bytes w = [ucast w, ucast (drop_bit 8 w)]"

definition uint8_view :: "16 word list \<Rightarrow> 8 word list" where
  "uint8_view ws = concat (map int16_bytes ws)"

text \<open>
  The host's \<open>btoa\<close>: base64 with the standard alphabet and \<open>=\<close> padding of a string
  whose code units are all at most \<open>0xFF\<close>; any other string raises
  \<open>InvalidCharacterError\<close>, here \<open>None\<close>.
\<close>

definition b64_alphabet :: jsstring where
  "b64_alphabet = js ''ABCDEFGHIJKLMNOPQRSTUVWXYZabcdefghijklmnopqrstuvwxyz0123456789+/''"

definition b64_digit :: "nat \<Rightarrow> jschar" where
  "b64_digit n = b64_alphabet ! n"

definition PAD :: jschar where
  "PAD = 0x3D"

fun b64_encode :: "8 word list \<Rightarrow> jsstring" where
  "b64_encode [] = []"
| "b64_encode [a] =
     [b64_digit (unat a div 4), b64_digit (unat a mod 4 * 16), PAD, PAD]"
| "b64_encode [a, b] =
     [b64_digit (unat a div 4), b64_digit (unat a mod 4 * 16 + unat b div 16),
      b64_digit (unat b mod 16 * 4), PAD]"
| "b64_encode (a # b # c # rest) =
     [b64_digit (unat a div 4), b64_digit (unat a mod 4 * 16 + unat b div 16),
      b64_digit (unat b mod 16 * 4 + unat c div 64), b64_digit (unat c mod 64)]
     @ b64_encode rest"

definition btoa :: "jsstring \<Rightarrow> jsstring option" where
  "btoa s = (if list_all (\<lambda>c. c \<le> 0xFF) s then Some (b64_encode (map ucast s)) else None)"

text \<open>\<open>String.fromCharCode(bytes[i])\<close> for a byte.\<close>

definition fromCharCode :: "8 word \<Rightarrow> jschar" where
  "fromCharCode b = ucast b"

text \<open>
  \<open>encode\<close>: the loop appends one code unit per byte to \<open>binary\<close>, then \<open>btoa\<close>
  encodes the string.
\<close>

definition encode :: "8 word list \<Rightarrow> jsstring option" where
  "encode bytes = btoa (foldl (\<lambda>binary b. binary @ [fromCharCode b]) [] bytes)"

text \<open>The payload object \<open>{ data, mimeType }\<close>.\<close>

record blob =
  data :: jsstring
  mimeType :: jsstring

definition createBlob :: "number list \<Rightarrow> blob option" where
  "createBlob samples =
     (let int16 = fill_int16 samples in
      case encode (uint8_view int16) of
        None \<Rightarrow> None
      | Some d \<Rightarrow> Some \<lparr>data = d, mimeType = js ''audio/pcm;rate=16000''\<rparr>)"

text \<open>
  A reference base64 decoder (RFC 4648), used to say what bytes an encoded string stands
  for. It is not part of the program.
\<close>

fun index_of :: "'a \<Rightarrow> 'a list \<Rightarrow> nat option" where
  "index_of x [] = None"
| "index_of x (y # ys) = (if x = y then Some 0 else map_option Suc (index_of x ys))"

definition b64_value :: "jschar \<Rightarrow> nat option" where
  "b64_value c = index_of c b64_alphabet"

fun b64_decode :: "jsstring \<Rightarrow> 8 word list option" where
  "b64_decode [] = Some []"
| "b64_decode (c1 # c2 # c3 # c4 # rest) =
     (case (b64_value c1, b64_value c2) of
        (Some p, Some q) \<Rightarrow>
          if rest = [] \<and> c3 = PAD \<and> c4 = PAD
          then Some [of_nat (p * 4 + q div 16)]
          else (case b64_value c3 of
                  None \<Rightarrow> None
                | Some r \<Rightarrow>
                    if rest = [] \<and> c4 = PAD
                    then Some [of_nat (p * 4 + q div 16), of_nat (q mod 16 * 16 + r div 4)]
                    else (case b64_value c4 of
                            None \<Rightarrow> None
                          | Some t \<Rightarrow>
                              map_option
                                (\<lambda>bs. of_nat (p * 4 + q div 16)
                                   # of_nat (q mod 16 * 16 + r div 4)
                                   # of_nat (r mod 4 * 64 + t) # bs)
                                (b64_decode rest)))
      | _ \<Rightarrow> None)"
| "b64_decode _ = None"


section \<open>White space, \<open>trim\<close> and \<open>collapse\<close>\<close>

lemma is_ws_SPACE: "is_ws SPACE"
  by (simp add: is_ws_def SPACE_def)

lemma non_ws_Nil: "non_ws [] = []"
  by (simp add: non_ws_def)

lemma non_ws_append: "non_ws (a @ b) = non_ws a @ non_ws b"
  by (simp add: non_ws_def)

lemma non_ws_SPACE: "non_ws [SPACE] = []"
  by (simp add: non_ws_def is_ws_SPACE)

lemma non_ws_dropWhile: "non_ws (dropWhile is_ws s) = non_ws s"
  by (induction s) (simp_all add: non_ws_def)

lemma non_ws_rev: "non_ws (rev s) = rev (non_ws s)"
  by (simp add: non_ws_def rev_filter)

lemma non_ws_trim: "non_ws (trim s) = non_ws s"
  by (simp add: trim_def non_ws_rev non_ws_dropWhile)

lemma non_ws_collapse: "non_ws (collapse s) = non_ws s"
proof (induction s rule: collapse.induct)
  case 1
  show ?case by simp
next
  case (2 c cs)
  show ?case
  proof (cases "is_ws c \<and> cs \<noteq> [] \<and> is_ws (hd cs)")
    case True
    then have eq: "collapse (c # cs) = SPACE # collapse (dropWhile is_ws cs)"
      by simp
    have "non_ws (collapse (dropWhile is_ws cs)) = non_ws (dropWhile is_ws cs)"
      using True 2(1) by simp
    then have "non_ws (collapse (c # cs)) = non_ws cs"
      unfolding eq by (simp add: non_ws_dropWhile) (simp add: non_ws_def is_ws_SPACE)
    then show ?thesis
      using True by (simp add: non_ws_def)
  next
    case False
    then have eq: "collapse (c # cs) = c # collapse cs"
      by auto
    have "non_ws (collapse cs) = non_ws cs"
      using False 2(2) by blast
    then show ?thesis
      unfolding eq by (simp add: non_ws_def)
  qed
qed

lemma blank_non_ws: "blank s \<Longrightarrow> non_ws s = []"
  using non_ws_trim [of s] by (simp add: blank_def non_ws_Nil)

lemma trim_Nil: "trim [] = []"
  by (simp add: trim_def)

lemma trim_sandwich:
  "s = takeWhile is_ws s @ trim s @ rev (takeWhile is_ws (rev (dropWhile is_ws s)))"
proof -
  let ?d = "dropWhile is_ws s"
  have "rev ?d = takeWhile is_ws (rev ?d) @ dropWhile is_ws (rev ?d)"
    by (rule takeWhile_dropWhile_id [symmetric])
  then have "rev (rev ?d) = rev (takeWhile is_ws (rev ?d) @ dropWhile is_ws (rev ?d))"
    by (rule arg_cong)
  then have "?d = trim s @ rev (takeWhile is_ws (rev ?d))"
    by (simp only: rev_rev_ident rev_append trim_def)
  then have "takeWhile is_ws s @ ?d = takeWhile is_ws s @ trim s @ rev (takeWhile is_ws (rev ?d))"
    by simp
  then show ?thesis by (simp only: takeWhile_dropWhile_id)
qed

lemma list_all_ws_takeWhile: "list_all is_ws (takeWhile is_ws s)"
  by (induction s) simp_all

section \<open>Basic facts about the handlers\<close>

lemma run_Nil: "run [] s = s"
  by (simp add: run_def)

lemma run_Cons: "run (e # evs) s = run evs (step e s)"
  by (simp add: run_def)

lemma session_start_eq:
  "session_start = \<lparr>finalizedTranscription = [], inProgressTranscription = [],
              isListening = True, isListeningRef = True, silenceTimerRef = None,
              pending = {}, next_handle = 1\<rparr>"
  by (simp add: session_start_def mounted_def startListening_def sync_ref_def)

lemma onmessage_partial:
  "\<not> isFinal f \<Longrightarrow>
   inProgressTranscription (onmessage (Some f) s) = inProgressTranscription s @ text' f
   \<and> finalizedTranscription (onmessage (Some f) s) = finalizedTranscription s"
  by (simp add: onmessage_def schedule_silence_timer_def setTimeout_def
      cancel_silence_timer_def clearTimeout_def append_partial_def split: option.split)

lemma onmessage_final:
  "isFinal f \<Longrightarrow>
   inProgressTranscription (onmessage (Some f) s) = []
   \<and> finalizedTranscription (onmessage (Some f) s) =
       trim (finalizedTranscription s @ inProgressTranscription s @ text' f) @ [SPACE]"
  by (simp add: onmessage_def commit_final_def
      cancel_silence_timer_def clearTimeout_def split: option.split)

lemma buffers_onmessage_None:
  "finalizedTranscription (onmessage None s) = finalizedTranscription s
   \<and> inProgressTranscription (onmessage None s) = inProgressTranscription s"
  by (simp add: onmessage_def)

lemma pending_onmessage_final:
  "isFinal f \<Longrightarrow>
   pending (onmessage (Some f) s) = pending s - set_option (silenceTimerRef s)
   \<and> next_handle (onmessage (Some f) s) = next_handle s
   \<and> silenceTimerRef (onmessage (Some f) s) = silenceTimerRef s"
  by (simp add: onmessage_def commit_final_def
      cancel_silence_timer_def clearTimeout_def split: option.split)

lemma pending_onmessage_partial:
  "\<not> isFinal f \<Longrightarrow>
   pending (onmessage (Some f) s) =
     insert (next_handle s) (pending s - set_option (silenceTimerRef s))"
  by (simp add: onmessage_def append_partial_def cancel_silence_timer_def
      clearTimeout_def schedule_silence_timer_def setTimeout_def split: option.split)

lemma pending_cancel_silence_timer:
  "pending (cancel_silence_timer s) = pending s - set_option (silenceTimerRef s)"
  by (simp add: cancel_silence_timer_def clearTimeout_def split: option.split)

lemma pending_append_partial: "pending (append_partial t s) = pending s"
  by (simp add: append_partial_def)

lemma silenceTimerRef_append_partial:
  "silenceTimerRef (append_partial t s) = silenceTimerRef s"
  by (simp add: append_partial_def)

subsection \<open>The silence-timeout callback and the timer firing\<close>

lemma silence_timeout_nonblank:
  "\<not> blank (inProgressTranscription s) \<Longrightarrow>
   silence_timeout s =
     s\<lparr>finalizedTranscription :=
         collapse (finalizedTranscription s @ trim (inProgressTranscription s) @ [SPACE]),
       inProgressTranscription := []\<rparr>"
  by (simp add: silence_timeout_def blank_def Let_def)

lemma silence_timeout_blank:
  "blank (inProgressTranscription s) \<Longrightarrow>
   silence_timeout s = s\<lparr>inProgressTranscription := []\<rparr>"
  by (simp add: silence_timeout_def blank_def Let_def)

lemma silence_timeout_empty:
  "inProgressTranscription s = [] \<Longrightarrow> silence_timeout s = s"
  by (simp add: silence_timeout_def trim_Nil Let_def)

lemma inProgress_silence_timeout: "inProgressTranscription (silence_timeout s) = []"
  by (simp add: silence_timeout_def Let_def)

lemma silence_timeout_twice: "silence_timeout (silence_timeout s) = silence_timeout s"
  by (rule silence_timeout_empty) (rule inProgress_silence_timeout)

lemma isListeningRef_silence_timeout:
  "isListeningRef (silence_timeout s) = isListeningRef s"
  by (simp add: silence_timeout_def Let_def)

lemma non_ws_finalized_silence_timeout:
  "non_ws (finalizedTranscription (silence_timeout s)) =
   non_ws (finalizedTranscription s) @ non_ws (inProgressTranscription s)"
proof (cases "blank (inProgressTranscription s)")
  case True
  then show ?thesis
    by (simp add: silence_timeout_blank blank_non_ws)
next
  case False
  then show ?thesis
    by (simp add: silence_timeout_nonblank non_ws_collapse non_ws_append non_ws_trim
        non_ws_SPACE)
qed

lemma buffers_timer_fires:
  "h \<in> pending s \<Longrightarrow>
   finalizedTranscription (timer_fires h s) = finalizedTranscription (silence_timeout s)
   \<and> inProgressTranscription (timer_fires h s) = []"
  by (simp add: timer_fires_def silence_timeout_def Let_def)

lemma timer_fires_not_pending: "h \<notin> pending s \<Longrightarrow> timer_fires h s = s"
  by (simp add: timer_fires_def)

subsection \<open>\<open>stopListening\<close>\<close>

lemma stopListening_listening:
  "isListeningRef s \<Longrightarrow>
   stopListening s =
     (silence_timeout s)\<lparr>isListening := False, silenceTimerRef := None,
        pending := pending s - set_option (silenceTimerRef s)\<rparr>"
  by (cases "silenceTimerRef s")
     (simp_all add: stopListening_def silence_timeout_def clearTimeout_def Let_def)

lemma stopListening_not_listening: "\<not> isListeningRef s \<Longrightarrow> stopListening s = s"
  by (simp add: stopListening_def)

lemma stopListening_twice: "stopListening (stopListening s) = stopListening s"
proof (cases "isListeningRef s")
  case False
  then show ?thesis by (simp add: stopListening_not_listening)
next
  case True
  let ?t = "stopListening s"
  have t: "?t = (silence_timeout s)\<lparr>isListening := False, silenceTimerRef := None,
        pending := pending s - set_option (silenceTimerRef s)\<rparr>"
    by (rule stopListening_listening [OF True])
  have r: "isListeningRef ?t"
    using True by (simp add: t isListeningRef_silence_timeout)
  have "stopListening ?t = (silence_timeout ?t)\<lparr>isListening := False, silenceTimerRef := None,
        pending := pending ?t - set_option (silenceTimerRef ?t)\<rparr>"
    by (rule stopListening_listening [OF r])
  also have "silence_timeout ?t = ?t"
    by (rule silence_timeout_empty) (simp add: t inProgress_silence_timeout)
  finally show ?thesis
    by (simp add: t)
qed

lemma stopListening_after_effect:
  assumes "isListeningRef s"
  shows "stopListening (sync_ref (stopListening s)) = sync_ref (stopListening s)"
proof -
  have "\<not> isListeningRef (sync_ref (stopListening s))"
    by (simp add: sync_ref_def stopListening_listening [OF assms])
  then show ?thesis by (rule stopListening_not_listening)
qed

lemma finalized_stopListening:
  "isListeningRef s \<Longrightarrow>
   finalizedTranscription (stopListening s) = finalizedTranscription (silence_timeout s)"
  by (simp add: stopListening_listening)

section \<open>The timer table\<close>

lemma timer_inv_session_start: "timer_inv session_start"
  by (simp add: timer_inv_def session_start_eq)

lemma timer_inv_onmessage:
  assumes "timer_inv s"
  shows "timer_inv (onmessage m s)"
proof (cases m)
  case None
  then show ?thesis using assms by (simp add: onmessage_def)
next
  case (Some f)
  show ?thesis
  proof (cases "isFinal f")
    case True
    then show ?thesis
      using assms Some
      by (auto simp: timer_inv_def onmessage_def commit_final_def cancel_silence_timer_def
          clearTimeout_def split: option.splits)
  next
    case False
    then show ?thesis
      using assms Some
      by (auto simp: timer_inv_def onmessage_def append_partial_def cancel_silence_timer_def
          clearTimeout_def schedule_silence_timer_def setTimeout_def split: option.splits)
  qed
qed

lemma timer_inv_timer_fires: "timer_inv s \<Longrightarrow> timer_inv (timer_fires h s)"
  by (auto simp: timer_inv_def timer_fires_def silence_timeout_def Let_def)

lemma timer_inv_stopListening: "timer_inv s \<Longrightarrow> timer_inv (stopListening s)"
  by (cases "isListeningRef s")
     (auto simp: timer_inv_def stopListening_listening stopListening_not_listening
        inProgress_silence_timeout)

lemma timer_inv_sync_ref: "timer_inv s \<Longrightarrow> timer_inv (sync_ref s)"
  by (simp add: timer_inv_def sync_ref_def)

lemma timer_inv_step: "timer_inv s \<Longrightarrow> timer_inv (step e s)"
  by (cases e)
     (simp_all add: timer_inv_onmessage timer_inv_timer_fires timer_inv_stopListening
        timer_inv_sync_ref)

lemma timer_inv_run: "timer_inv s \<Longrightarrow> timer_inv (run evs s)"
  by (induction evs arbitrary: s) (simp_all add: run_Nil run_Cons timer_inv_step)

lemma timer_inv_card: "timer_inv s \<Longrightarrow> card (pending s) \<le> 1"
proof -
  assume "timer_inv s"
  then have sub: "pending s \<subseteq> set_option (silenceTimerRef s)"
    by (simp add: timer_inv_def)
  have "card (pending s) \<le> card (set_option (silenceTimerRef s))"
    by (rule card_mono [OF _ sub]) simp
  also have "\<dots> \<le> 1"
    by (cases "silenceTimerRef s") simp_all
  finally show ?thesis .
qed

lemma superseded_not_pending:
  assumes "timer_inv s" and "h \<in> pending s"
  shows "h \<notin> pending (onmessage (Some f) s)"
proof (cases "isFinal f")
  case True
  then show ?thesis
    using assms by (auto simp: pending_onmessage_final timer_inv_def)
next
  case False
  have lt: "h < next_handle s"
    using assms by (auto simp: timer_inv_def)
  have e: "pending s - set_option (silenceTimerRef s) = {}"
    using assms(1) by (auto simp: timer_inv_def)
  have "pending (onmessage (Some f) s) = insert (next_handle s) {}"
    by (simp only: pending_onmessage_partial [OF False] e)
  with lt show ?thesis by simp
qed

lemma stale_timer_inert:
  assumes "timer_inv s" and "h \<in> pending s"
  shows "timer_fires h (onmessage (Some f) s) = onmessage (Some f) s"
  using superseded_not_pending [OF assms, of f] by (simp add: timer_fires_def)

lemma quiescent_inProgress:
  "timer_inv s \<Longrightarrow> pending s = {} \<Longrightarrow> inProgressTranscription s = []"
  by (auto simp: timer_inv_def)

section \<open>What the handlers do to the text\<close>

text \<open>
  Every event appends to the non-white-space content of the finalized string what it
  takes out of the in-progress string, and puts the rest of the delivered text into the
  in-progress string.
\<close>

lemma step_text:
  "\<exists>moved.
     non_ws (finalizedTranscription (step e s)) = non_ws (finalizedTranscription s) @ moved
     \<and> moved @ non_ws (inProgressTranscription (step e s)) =
         non_ws (inProgressTranscription s) @ non_ws (delivered [e])"
proof (cases e)
  case (Message m)
  show ?thesis
  proof (cases m)
    case None
    then show ?thesis
      using Message buffers_onmessage_None [of s] by (simp add: non_ws_Nil)
  next
    case (Some f)
    show ?thesis
    proof (cases "isFinal f")
      case True
      then show ?thesis
        using Message Some onmessage_final [OF True, of s]
        by (simp add: non_ws_append non_ws_trim non_ws_SPACE non_ws_Nil)
    next
      case False
      then show ?thesis
        using Message Some onmessage_partial [OF False, of s]
        by (simp add: non_ws_append)
    qed
  qed
next
  case (TimerFires h)
  show ?thesis
  proof (cases "h \<in> pending s")
    case True
    then show ?thesis
      using TimerFires buffers_timer_fires [OF True]
      by (simp add: non_ws_finalized_silence_timeout non_ws_Nil)
  next
    case False
    then show ?thesis
      using TimerFires by (simp add: timer_fires_not_pending non_ws_Nil)
  qed
next
  case Stop
  show ?thesis
  proof (cases "isListeningRef s")
    case True
    then show ?thesis
      using Stop
      by (simp add: stopListening_listening non_ws_finalized_silence_timeout
          inProgress_silence_timeout non_ws_Nil)
  next
    case False
    then show ?thesis
      using Stop by (simp add: stopListening_not_listening non_ws_Nil)
  qed
next
  case Effect
  then show ?thesis by (simp add: sync_ref_def non_ws_Nil)
qed

lemma step_finalized_prefix:
  "prefix (non_ws (finalizedTranscription s)) (non_ws (finalizedTranscription (step e s)))"
  using step_text [of e s] by (auto simp: prefix_def)

lemma run_finalized_prefix:
  "prefix (non_ws (finalizedTranscription s)) (non_ws (finalizedTranscription (run evs s)))"
proof (induction evs arbitrary: s)
  case Nil
  show ?case by (simp add: run_Nil)
next
  case (Cons e evs)
  have "prefix (non_ws (finalizedTranscription s)) (non_ws (finalizedTranscription (step e s)))"
    by (rule step_finalized_prefix)
  also have "prefix \<dots> (non_ws (finalizedTranscription (run evs (step e s))))"
    by (rule Cons.IH)
  finally show ?case by (simp add: run_Cons)
qed

lemma step_conserves:
  "non_ws (finalizedTranscription (step e s) @ inProgressTranscription (step e s)) =
   non_ws (finalizedTranscription s @ inProgressTranscription s) @ non_ws (delivered [e])"
  using step_text [of e s] by (auto simp: non_ws_append)

lemma delivered_Cons: "delivered (e # evs) = delivered [e] @ delivered evs"
  by (cases "(e # evs)" rule: delivered.cases) simp_all

lemma run_conserves:
  "non_ws (finalizedTranscription (run evs s) @ inProgressTranscription (run evs s)) =
   non_ws (finalizedTranscription s @ inProgressTranscription s) @ non_ws (delivered evs)"
proof (induction evs arbitrary: s)
  case Nil
  show ?case by (simp add: run_Nil non_ws_Nil)
next
  case (Cons e evs)
  have "non_ws (delivered (e # evs)) = non_ws (delivered [e]) @ non_ws (delivered evs)"
    using delivered_Cons [of e evs] by (simp only: non_ws_append)
  then show ?case
    using Cons.IH [of "step e s"] step_conserves [of e s]
    by (simp add: run_Cons)
qed

section \<open>Runs of the scenarios\<close>

lemma hello_world_run:
  "run [Message (Some \<lparr>text' = js ''Hello '', isFinal = False\<rparr>),
        Message (Some \<lparr>text' = js ''world'', isFinal = False\<rparr>),
        TimerFires 2] session_start =
   \<lparr>finalizedTranscription = js ''Hello world '', inProgressTranscription = [],
    isListening = True, isListeningRef = True, silenceTimerRef = Some 2,
    pending = {}, next_handle = 3\<rparr>"
  by (simp add: run_def session_start_eq onmessage_def append_partial_def
      cancel_silence_timer_def clearTimeout_def schedule_silence_timer_def setTimeout_def
      timer_fires_def silence_timeout_def js_def trim_def is_ws_def SPACE_def Let_def)

lemma bonjour_run:
  "run [Message (Some \<lparr>text' = js ''Bonjour'', isFinal = False\<rparr>),
        Message (Some \<lparr>text' = js ''le monde'', isFinal = True\<rparr>)] session_start =
   \<lparr>finalizedTranscription = js ''Bonjourle monde '', inProgressTranscription = [],
    isListening = True, isListeningRef = True, silenceTimerRef = Some 1,
    pending = {}, next_handle = 2\<rparr>"
  by (simp add: run_def session_start_eq onmessage_def append_partial_def commit_final_def
      cancel_silence_timer_def clearTimeout_def schedule_silence_timer_def setTimeout_def
      js_def trim_def is_ws_def SPACE_def)

lemma stop_pending_run:
  "run [Message (Some \<lparr>text' = js ''salam'', isFinal = False\<rparr>), Stop] session_start =
   \<lparr>finalizedTranscription = js ''salam '', inProgressTranscription = [],
    isListening = False, isListeningRef = True, silenceTimerRef = None,
    pending = {}, next_handle = 2\<rparr>"
  by (simp add: run_def session_start_eq onmessage_def append_partial_def
      cancel_silence_timer_def clearTimeout_def schedule_silence_timer_def setTimeout_def
      stopListening_def js_def trim_def is_ws_def SPACE_def Let_def)

lemma late_fragment_run:
  "run [Stop, Effect, Message (Some \<lparr>text' = js ''x'', isFinal = False\<rparr>)] session_start =
   \<lparr>finalizedTranscription = [], inProgressTranscription = js ''x'',
    isListening = False, isListeningRef = False, silenceTimerRef = Some 1,
    pending = {1}, next_handle = 2\<rparr>"
  by (simp add: run_def session_start_eq onmessage_def append_partial_def
      cancel_silence_timer_def clearTimeout_def schedule_silence_timer_def setTimeout_def
      stopListening_def sync_ref_def silence_timeout_def trim_def js_def Let_def)

lemma spaces_run:
  "run [Message (Some \<lparr>text' = js ''a   b'', isFinal = False\<rparr>), TimerFires 1] session_start =
   \<lparr>finalizedTranscription = js ''a b '', inProgressTranscription = [],
    isListening = True, isListeningRef = True, silenceTimerRef = Some 1,
    pending = {}, next_handle = 2\<rparr>"
  by (simp add: run_def session_start_eq onmessage_def append_partial_def
      cancel_silence_timer_def clearTimeout_def schedule_silence_timer_def setTimeout_def
      timer_fires_def silence_timeout_def js_def trim_def is_ws_def SPACE_def Let_def)

section \<open>No delivered text is lost or committed twice\<close>

text \<open>
  White space is not kept one for one: of the three spaces of the partial fragment
  \<open>"a   b"\<close> the timeout commit leaves one in the finalized string \<open>"a b "\<close>, next
  to the separator it appends.
\<close>

theorem timeout_commit_drops_spaces:
  "finalizedTranscription
     (run [Message (Some \<lparr>text' = js ''a   b'', isFinal = False\<rparr>), TimerFires 1]
        session_start) = js ''a b ''
   \<and> pending
     (run [Message (Some \<lparr>text' = js ''a   b'', isFinal = False\<rparr>), TimerFires 1]
        session_start) = {}
   \<and> count_list
        (delivered [Message (Some \<lparr>text' = js ''a   b'', isFinal = False\<rparr>), TimerFires 1])
        SPACE = 3
   \<and> count_list
        (finalizedTranscription
           (run [Message (Some \<lparr>text' = js ''a   b'', isFinal = False\<rparr>), TimerFires 1]
              session_start)) SPACE = 2"
  unfolding spaces_run by (simp add: js_def SPACE_def)

text \<open>
  Claim C1, amended. For every sequence of server messages, timer firings, stop requests
  and ref effects, every non-white-space code unit delivered in the fragments is in the
  finalized string followed by the in-progress string exactly once and in arrival
  order: a commit by a final fragment, by a timeout or by a stop moves text from the
  in-progress string to the finalized string and never copies it. White space may be
  trimmed or collapsed, and each commit appends one separator. Counted from the start of
  a session, once no timer is pending the in-progress string is empty, so all of the
  delivered non-white-space text is in the finalized string.
\<close>

theorem delivered_text_conserved:
  "non_ws (finalizedTranscription (run evs s) @ inProgressTranscription (run evs s)) =
     non_ws (finalizedTranscription s @ inProgressTranscription s) @ non_ws (delivered evs)
   \<and> non_ws (finalizedTranscription (run evs session_start)
        @ inProgressTranscription (run evs session_start)) = non_ws (delivered evs)
   \<and> (pending (run evs session_start) = {} \<longrightarrow>
        inProgressTranscription (run evs session_start) = []
        \<and> non_ws (finalizedTranscription (run evs session_start)) = non_ws (delivered evs))"
proof -
  have start: "non_ws (finalizedTranscription (run evs session_start)
        @ inProgressTranscription (run evs session_start)) = non_ws (delivered evs)"
    using run_conserves [of evs session_start] by (simp add: session_start_eq non_ws_Nil)
  have "inProgressTranscription (run evs session_start) = []
        \<and> non_ws (finalizedTranscription (run evs session_start)) = non_ws (delivered evs)"
    if q: "pending (run evs session_start) = {}"
  proof -
    have "inProgressTranscription (run evs session_start) = []"
      using timer_inv_run [OF timer_inv_session_start, of evs] q
      by (rule quiescent_inProgress)
    then show ?thesis using start by simp
  qed
  then show ?thesis
    using run_conserves [of evs s] start by blast
qed

theorem delivered_text_conserved_witness:
  "pending
     (run [Message (Some \<lparr>text' = js ''a   b'', isFinal = False\<rparr>), TimerFires 1]
        session_start) = {}
   \<and> non_ws (finalizedTranscription
     (run [Message (Some \<lparr>text' = js ''a   b'', isFinal = False\<rparr>), TimerFires 1]
        session_start)) = js ''ab''"
proof -
  let ?evs = "[Message (Some \<lparr>text' = js ''a   b'', isFinal = False\<rparr>), TimerFires 1]"
  have q: "pending (run ?evs session_start) = {}"
    unfolding spaces_run by simp
  have d: "non_ws (delivered ?evs) = js ''ab''"
    by (simp add: non_ws_def js_def is_ws_def)
  from delivered_text_conserved [of ?evs] q
  have "non_ws (finalizedTranscription (run ?evs session_start)) = non_ws (delivered ?evs)"
    by blast
  with q d show ?thesis by simp
qed

section \<open>Final fragments\<close>

text \<open>
  Claim C2. In every state, a fragment with \<open>isFinal\<close> set and text \<open>t\<close> leaves
  \<open>inProgressTranscription\<close> empty and \<open>finalizedTranscription\<close> equal to the old
  finalized string followed by the old in-progress string followed by \<open>t\<close>, trimmed,
  with one SPACE appended. Nothing is dropped but the white space the trim strips at
  the two ends (the concatenation is \<open>pre @ trimmed @ suf\<close> with \<open>pre\<close> and \<open>suf\<close>
  white space only) and nothing is duplicated: the non-white-space code units are those
  of the three strings in order. The commit happens in the handler itself: the timer of
  \<open>silenceTimerRef\<close> is cleared, no handle is handed out, and in a reachable state no
  timer is pending afterwards.
\<close>

theorem final_fragment_commits:
  assumes "isFinal f"
  shows "inProgressTranscription (onmessage (Some f) s) = []
    \<and> finalizedTranscription (onmessage (Some f) s) =
        trim (finalizedTranscription s @ inProgressTranscription s @ text' f) @ [SPACE]
    \<and> non_ws (finalizedTranscription (onmessage (Some f) s)) =
        non_ws (finalizedTranscription s) @ non_ws (inProgressTranscription s) @ non_ws (text' f)
    \<and> (\<exists>pre suf.
          finalizedTranscription s @ inProgressTranscription s @ text' f =
            pre @ trim (finalizedTranscription s @ inProgressTranscription s @ text' f) @ suf
          \<and> list_all is_ws pre \<and> list_all is_ws suf)
    \<and> pending (onmessage (Some f) s) = pending s - set_option (silenceTimerRef s)
    \<and> next_handle (onmessage (Some f) s) = next_handle s
    \<and> (timer_inv s \<longrightarrow> pending (onmessage (Some f) s) = {})"
proof -
  let ?all = "finalizedTranscription s @ inProgressTranscription s @ text' f"
  note fin = onmessage_final [OF assms, of s]
  note tim = pending_onmessage_final [OF assms, of s]
  have nw: "non_ws (finalizedTranscription (onmessage (Some f) s)) =
        non_ws (finalizedTranscription s) @ non_ws (inProgressTranscription s) @ non_ws (text' f)"
    using fin by (simp add: non_ws_append non_ws_trim non_ws_SPACE)
  have sw: "\<exists>pre suf. ?all = pre @ trim ?all @ suf \<and> list_all is_ws pre \<and> list_all is_ws suf"
  proof (intro exI conjI)
    show "?all = takeWhile is_ws ?all @ trim ?all @ rev (takeWhile is_ws (rev (dropWhile is_ws ?all)))"
      by (rule trim_sandwich)
    show "list_all is_ws (takeWhile is_ws ?all)"
      by (rule list_all_ws_takeWhile)
    show "list_all is_ws (rev (takeWhile is_ws (rev (dropWhile is_ws ?all))))"
      using list_all_ws_takeWhile [of "rev (dropWhile is_ws ?all)"] by (simp only: list_all_rev)
  qed
  have em: "timer_inv s \<longrightarrow> pending (onmessage (Some f) s) = {}"
  proof
    assume "timer_inv s"
    then have "pending s \<subseteq> set_option (silenceTimerRef s)"
      by (simp add: timer_inv_def)
    then show "pending (onmessage (Some f) s) = {}"
      using tim by auto
  qed
  show ?thesis
    using fin tim nw sw em by (intro conjI) (simp_all only:)
qed

theorem final_fragment_commits_witness:
  "finalizedTranscription
     (onmessage (Some \<lparr>text' = js ''world '', isFinal = True\<rparr>)
        (session_start\<lparr>inProgressTranscription := js '' Hello '', silenceTimerRef := Some 1,
            pending := {1}, next_handle := 2\<rparr>)) = js ''Hello world ''
   \<and> inProgressTranscription
     (onmessage (Some \<lparr>text' = js ''world '', isFinal = True\<rparr>)
        (session_start\<lparr>inProgressTranscription := js '' Hello '', silenceTimerRef := Some 1,
            pending := {1}, next_handle := 2\<rparr>)) = []
   \<and> pending
     (onmessage (Some \<lparr>text' = js ''world '', isFinal = True\<rparr>)
        (session_start\<lparr>inProgressTranscription := js '' Hello '', silenceTimerRef := Some 1,
            pending := {1}, next_handle := 2\<rparr>)) = {}"
  using final_fragment_commits
    [of "\<lparr>text' = js ''world '', isFinal = True\<rparr>"
        "session_start\<lparr>inProgressTranscription := js '' Hello '', silenceTimerRef := Some 1,
            pending := {1}, next_handle := 2\<rparr>"]
  by (simp add: session_start_eq js_def trim_def is_ws_def SPACE_def timer_inv_def)

section \<open>The silence timeout\<close>

text \<open>
  With a blank but non-empty in-progress string (one SPACE, as a partial fragment
  \<open>" "\<close> leaves it) the callback is not a no-op: it empties the string.
\<close>

theorem silence_timeout_blank_not_noop:
  "blank (js '' '')
   \<and> silence_timeout (session_start\<lparr>inProgressTranscription := js '' ''\<rparr>) \<noteq>
       session_start\<lparr>inProgressTranscription := js '' ''\<rparr>
   \<and> inProgressTranscription
       (silence_timeout (session_start\<lparr>inProgressTranscription := js '' ''\<rparr>)) = []"
  by (simp add: blank_def silence_timeout_def session_start_eq js_def trim_def is_ws_def Let_def)

text \<open>
  Claim C3, amended. When the silence timeout fires with a non-blank in-progress string,
  the callback trims it, appends a SPACE, appends the result to the finalized string,
  collapses every run of two or more white-space code units of the whole to one SPACE,
  and empties the in-progress string. When the in-progress string is blank, the
  finalized string is unchanged and the in-progress string is emptied; the firing is a
  no-op when the in-progress string is already empty, so a second consecutive firing
  changes nothing. From the start of a session, the partial fragments \<open>"Hello "\<close> and
  \<open>"world"\<close> followed by the firing of the pending timer give the finalized string
  \<open>"Hello world "\<close> and an empty in-progress string.
\<close>

theorem silence_timeout_commits:
  "(\<not> blank (inProgressTranscription s) \<longrightarrow>
      silence_timeout s =
        s\<lparr>finalizedTranscription :=
            collapse (finalizedTranscription s @ trim (inProgressTranscription s) @ [SPACE]),
          inProgressTranscription := []\<rparr>)
   \<and> (blank (inProgressTranscription s) \<longrightarrow>
      silence_timeout s = s\<lparr>inProgressTranscription := []\<rparr>)
   \<and> (inProgressTranscription s = [] \<longrightarrow> silence_timeout s = s)
   \<and> silence_timeout (silence_timeout s) = silence_timeout s
   \<and> finalizedTranscription
        (run [Message (Some \<lparr>text' = js ''Hello '', isFinal = False\<rparr>),
              Message (Some \<lparr>text' = js ''world'', isFinal = False\<rparr>),
              TimerFires 2] session_start) = js ''Hello world ''
   \<and> inProgressTranscription
        (run [Message (Some \<lparr>text' = js ''Hello '', isFinal = False\<rparr>),
              Message (Some \<lparr>text' = js ''world'', isFinal = False\<rparr>),
              TimerFires 2] session_start) = []"
  using silence_timeout_nonblank [of s] silence_timeout_blank [of s]
    silence_timeout_empty [of s] silence_timeout_twice [of s]
  by (simp only: hello_world_run app_state.simps) blast

theorem silence_timeout_commits_witness:
  "silence_timeout
     (session_start\<lparr>finalizedTranscription := js ''Hello '',
                    inProgressTranscription := js ''  big   world''\<rparr>) =
   session_start\<lparr>finalizedTranscription := js ''Hello big world ''\<rparr>
   \<and> silence_timeout (session_start\<lparr>finalizedTranscription := js ''Hello ''\<rparr>) =
       session_start\<lparr>finalizedTranscription := js ''Hello ''\<rparr>"
proof -
  have nb: "\<not> blank (js ''  big   world'')"
    by (simp add: blank_def js_def trim_def is_ws_def)
  have e: "inProgressTranscription (session_start\<lparr>finalizedTranscription := js ''Hello ''\<rparr>) = []"
    by (simp add: session_start_eq)
  show ?thesis
    using nb e silence_timeout_commits
      [of "session_start\<lparr>finalizedTranscription := js ''Hello '',
                    inProgressTranscription := js ''  big   world''\<rparr>"]
      silence_timeout_commits [of "session_start\<lparr>finalizedTranscription := js ''Hello ''\<rparr>"]
    by (simp add: session_start_eq js_def trim_def is_ws_def SPACE_def)
qed

section \<open>A partial fragment followed by a final one\<close>

text \<open>
  The partial fragment \<open>"Bonjour"\<close> and the final fragment \<open>"le monde"\<close> are
  concatenated as they are: no separator is put between them, so the finalized string
  is not \<open>"Bonjour le monde "\<close>.
\<close>

theorem bonjour_not_separated:
  "finalizedTranscription
     (run [Message (Some \<lparr>text' = js ''Bonjour'', isFinal = False\<rparr>),
           Message (Some \<lparr>text' = js ''le monde'', isFinal = True\<rparr>)] session_start)
   \<noteq> js ''Bonjour le monde ''"
  by (simp only: bonjour_run app_state.simps) (simp add: js_def)

text \<open>
  Claim C4, amended. From the start of a session, after the partial fragment
  \<open>"Bonjour"\<close> and then the final fragment \<open>"le monde"\<close>, with no timer firing in
  between, the finalized string is \<open>"Bonjourle monde "\<close>, the in-progress string is
  empty, and no timer is pending.
\<close>

theorem bonjour_scenario:
  "finalizedTranscription
     (run [Message (Some \<lparr>text' = js ''Bonjour'', isFinal = False\<rparr>),
           Message (Some \<lparr>text' = js ''le monde'', isFinal = True\<rparr>)] session_start)
     = js ''Bonjourle monde ''
   \<and> inProgressTranscription
     (run [Message (Some \<lparr>text' = js ''Bonjour'', isFinal = False\<rparr>),
           Message (Some \<lparr>text' = js ''le monde'', isFinal = True\<rparr>)] session_start) = []
   \<and> pending
     (run [Message (Some \<lparr>text' = js ''Bonjour'', isFinal = False\<rparr>),
           Message (Some \<lparr>text' = js ''le monde'', isFinal = True\<rparr>)] session_start) = {}"
  unfolding bonjour_run by simp

section \<open>Partial fragments\<close>

text \<open>
  Claim C5. A sequence of partial fragments (none final, no timer firing in between)
  leaves \<open>inProgressTranscription\<close> as its old value followed by the fragments' texts
  in arrival order, untrimmed, and leaves \<open>finalizedTranscription\<close> as it was. From
  the start of a session the old value is empty, so the in-progress string is exactly
  the concatenation.
\<close>

theorem partial_fragments_accumulate:
  assumes "\<forall>f \<in> set frags. \<not> isFinal f"
  shows "inProgressTranscription (run (map (\<lambda>f. Message (Some f)) frags) s) =
           inProgressTranscription s @ concat (map text' frags)
         \<and> finalizedTranscription (run (map (\<lambda>f. Message (Some f)) frags) s) =
             finalizedTranscription s
         \<and> inProgressTranscription
             (run (map (\<lambda>f. Message (Some f)) frags) session_start) =
             concat (map text' frags)"
proof -
  have gen: "inProgressTranscription (run (map (\<lambda>f. Message (Some f)) frags) t) =
           inProgressTranscription t @ concat (map text' frags)
         \<and> finalizedTranscription (run (map (\<lambda>f. Message (Some f)) frags) t) =
             finalizedTranscription t" for t
    using assms
  proof (induction frags arbitrary: t)
    case Nil
    show ?case by (simp add: run_Nil)
  next
    case (Cons f frags)
    have p: "\<not> isFinal f" using Cons.prems by simp
    have rest: "\<forall>g \<in> set frags. \<not> isFinal g" using Cons.prems by simp
    show ?case
      using Cons.IH [OF rest, of "onmessage (Some f) t"] onmessage_partial [OF p, of t]
      by (simp add: run_Cons)
  qed
  have "inProgressTranscription session_start = []"
    by (simp add: session_start_eq)
  with gen [of s] gen [of session_start] show ?thesis
    by simp
qed

theorem partial_fragments_accumulate_witness:
  "inProgressTranscription
     (run [Message (Some \<lparr>text' = js ''Hel'', isFinal = False\<rparr>),
           Message (Some \<lparr>text' = js ''lo '', isFinal = False\<rparr>)] session_start) = js ''Hello ''
   \<and> finalizedTranscription
     (run [Message (Some \<lparr>text' = js ''Hel'', isFinal = False\<rparr>),
           Message (Some \<lparr>text' = js ''lo '', isFinal = False\<rparr>)] session_start) = []"
  using partial_fragments_accumulate
    [of "[\<lparr>text' = js ''Hel'', isFinal = False\<rparr>, \<lparr>text' = js ''lo '', isFinal = False\<rparr>]"
        session_start]
  by (simp add: session_start_eq js_def)

section \<open>Stopping\<close>

text \<open>
  \<open>stopListening\<close> does not reset the finalized string: after the final fragment
  \<open>"salam"\<close> and a stop it is still \<open>"salam "\<close>.
\<close>

theorem stopListening_keeps_finalized:
  "finalizedTranscription
     (stopListening (onmessage (Some \<lparr>text' = js ''salam'', isFinal = True\<rparr>) session_start))
     = js ''salam ''
   \<and> finalizedTranscription
     (stopListening (onmessage (Some \<lparr>text' = js ''salam'', isFinal = True\<rparr>) session_start))
     \<noteq> []"
  by (simp add: session_start_eq onmessage_def commit_final_def
      cancel_silence_timer_def stopListening_def js_def trim_def is_ws_def SPACE_def Let_def)

text \<open>
  Claim C6, amended. \<open>stopListening\<close>, called while the listening ref is set, clears
  the timer of \<open>silenceTimerRef\<close> and nulls the ref (in a reachable state no timer is
  pending afterwards); it leaves the finalized string as the silence-timeout callback
  would (the same commit when the in-progress string is not blank, unchanged when it
  is blank); it empties the in-progress string and keeps the finalized string. Both
  strings are reset by \<open>startListening\<close> at the start of the next session.
\<close>

theorem stopListening_flushes:
  assumes "isListeningRef s"
  shows "silenceTimerRef (stopListening s) = None
    \<and> pending (stopListening s) = pending s - set_option (silenceTimerRef s)
    \<and> (timer_inv s \<longrightarrow> pending (stopListening s) = {})
    \<and> finalizedTranscription (stopListening s) = finalizedTranscription (silence_timeout s)
    \<and> (blank (inProgressTranscription s) \<longrightarrow>
          finalizedTranscription (stopListening s) = finalizedTranscription s)
    \<and> inProgressTranscription (stopListening s) = []
    \<and> \<not> isListening (stopListening s)
    \<and> finalizedTranscription (startListening (stopListening s)) = []
    \<and> inProgressTranscription (startListening (stopListening s)) = []"
proof -
  note eq = stopListening_listening [OF assms]
  have p: "pending (stopListening s) = pending s - set_option (silenceTimerRef s)"
    by (simp add: eq)
  have e: "timer_inv s \<longrightarrow> pending (stopListening s) = {}"
    unfolding p by (auto simp: timer_inv_def)
  have b: "blank (inProgressTranscription s) \<longrightarrow>
          finalizedTranscription (stopListening s) = finalizedTranscription s"
    by (simp add: eq silence_timeout_blank)
  have l: "\<not> isListening (stopListening s)"
    by (simp add: eq)
  have "silenceTimerRef (stopListening s) = None"
    and "finalizedTranscription (stopListening s) = finalizedTranscription (silence_timeout s)"
    and "inProgressTranscription (stopListening s) = []"
    by (simp_all add: eq inProgress_silence_timeout)
  moreover have "finalizedTranscription (startListening (stopListening s)) = []"
    and "inProgressTranscription (startListening (stopListening s)) = []"
    using l by (simp_all add: startListening_def)
  ultimately show ?thesis
    using p e b l by simp
qed

theorem stopListening_flushes_witness:
  "finalizedTranscription
     (stopListening (onmessage (Some \<lparr>text' = js ''salam'', isFinal = False\<rparr>) session_start))
     = js ''salam ''
   \<and> inProgressTranscription
     (stopListening (onmessage (Some \<lparr>text' = js ''salam'', isFinal = False\<rparr>) session_start))
     = []
   \<and> pending
     (stopListening (onmessage (Some \<lparr>text' = js ''salam'', isFinal = False\<rparr>) session_start))
     = {}"
  using stopListening_flushes
    [of "onmessage (Some \<lparr>text' = js ''salam'', isFinal = False\<rparr>) session_start"]
  by (simp add: session_start_eq onmessage_def append_partial_def
      cancel_silence_timer_def clearTimeout_def schedule_silence_timer_def setTimeout_def
      silence_timeout_def js_def trim_def is_ws_def SPACE_def Let_def)

text \<open>
  A partial fragment that arrives after a stop and the ref effect finds the listening
  ref unset: \<open>stopListening\<close> then returns at its guard, twice as well as once, and the
  text \<open>"x"\<close> stays in the in-progress string with its timer pending. It is not flushed
  by the stop.
\<close>

theorem stopListening_guard_skips_flush:
  "\<not> isListeningRef
       (run [Stop, Effect, Message (Some \<lparr>text' = js ''x'', isFinal = False\<rparr>)] session_start)
   \<and> inProgressTranscription
       (stopListening (stopListening
          (run [Stop, Effect, Message (Some \<lparr>text' = js ''x'', isFinal = False\<rparr>)]
             session_start))) = js ''x''
   \<and> finalizedTranscription
       (stopListening (stopListening
          (run [Stop, Effect, Message (Some \<lparr>text' = js ''x'', isFinal = False\<rparr>)]
             session_start))) = []
   \<and> pending
       (stopListening (stopListening
          (run [Stop, Effect, Message (Some \<lparr>text' = js ''x'', isFinal = False\<rparr>)]
             session_start))) = {1}"
  unfolding late_fragment_run by (simp add: stopListening_def)

text \<open>
  Claim C7, amended. \<open>stopListening\<close> called twice in succession gives the state the
  first call gave, in every state. When the first call is made while the listening ref
  is set, the same holds with the effect that mirrors the listening flag running
  between the two calls, and the text pending in the in-progress string is flushed
  once: after the second call the finalized string is what the one commit of the
  silence-timeout callback makes of it, and the in-progress string is empty. With the
  ref unset the call returns at its guard and flushes nothing.
\<close>

theorem stopListening_idempotent:
  "stopListening (stopListening s) = stopListening s
   \<and> (isListeningRef s \<longrightarrow>
        stopListening (sync_ref (stopListening s)) = sync_ref (stopListening s)
        \<and> finalizedTranscription (stopListening (stopListening s)) =
            finalizedTranscription (silence_timeout s)
        \<and> inProgressTranscription (stopListening (stopListening s)) = [])"
proof -
  have twice: "stopListening (stopListening s) = stopListening s"
    by (rule stopListening_twice)
  have "stopListening (sync_ref (stopListening s)) = sync_ref (stopListening s)
        \<and> finalizedTranscription (stopListening (stopListening s)) =
            finalizedTranscription (silence_timeout s)
        \<and> inProgressTranscription (stopListening (stopListening s)) = []"
    if r: "isListeningRef s"
  proof (intro conjI)
    show "stopListening (sync_ref (stopListening s)) = sync_ref (stopListening s)"
      by (rule stopListening_after_effect [OF r])
    show "finalizedTranscription (stopListening (stopListening s)) =
            finalizedTranscription (silence_timeout s)"
      unfolding twice by (rule finalized_stopListening [OF r])
    show "inProgressTranscription (stopListening (stopListening s)) = []"
      unfolding twice by (simp add: stopListening_listening [OF r] inProgress_silence_timeout)
  qed
  with twice show ?thesis by blast
qed

theorem stopListening_idempotent_witness:
  "stopListening (run [Message (Some \<lparr>text' = js ''salam'', isFinal = False\<rparr>), Stop] session_start)
     = run [Message (Some \<lparr>text' = js ''salam'', isFinal = False\<rparr>), Stop] session_start
   \<and> finalizedTranscription
       (stopListening (run [Message (Some \<lparr>text' = js ''salam'', isFinal = False\<rparr>), Stop] session_start))
     = js ''salam ''"
  using stopListening_idempotent
    [of "run [Message (Some \<lparr>text' = js ''salam'', isFinal = False\<rparr>)] session_start"]
    stop_pending_run
  by (simp add: run_def)

section \<open>One live timer\<close>

text \<open>
  Clearing the timer touches the timer table only and the append touches the in-progress
  string only, so the two statements of the partial branch commute: the handler leaves
  the state that clearing first and appending second leaves.
\<close>

lemma cancel_append_commute:
  "cancel_silence_timer (append_partial t s) = append_partial t (cancel_silence_timer s)"
  by (cases "silenceTimerRef s")
     (simp_all add: cancel_silence_timer_def append_partial_def clearTimeout_def)

lemma onmessage_cancels_first:
  "onmessage (Some f) s =
     (if isFinal f
      then commit_final (text' f) (cancel_silence_timer s)
      else schedule_silence_timer (append_partial (text' f) (cancel_silence_timer s)))"
  by (simp add: onmessage_def cancel_append_commute)

lemma buffers_cancel_silence_timer:
  "finalizedTranscription (cancel_silence_timer s) = finalizedTranscription s
   \<and> inProgressTranscription (cancel_silence_timer s) = inProgressTranscription s"
  by (cases "silenceTimerRef s") (simp_all add: cancel_silence_timer_def clearTimeout_def)

text \<open>
  Claim C9. At most one silence timer is ever pending: in every state reached from the
  start of a session (and from any state where only the handle in \<open>silenceTimerRef\<close>
  can be pending) the timer table holds at most one handle. Every fragment arrival,
  partial or final, cancels the timer scheduled before it ahead of any change to the
  two strings and ahead of the new schedule: the handler's result is that of clearing
  the timer on the unchanged strings, which leaves no timer pending, then committing
  (final) or appending and scheduling one new timer (partial). So a timer that was
  pending when a fragment arrived is no longer pending after it, and its firing does
  nothing.
\<close>

theorem one_live_timer:
  assumes "timer_inv s"
  shows "card (pending (run evs session_start)) \<le> 1
    \<and> timer_inv (run evs s)
    \<and> card (pending (run evs s)) \<le> 1
    \<and> (\<forall>h \<in> pending s.
          h \<notin> pending (onmessage (Some f) s)
          \<and> timer_fires h (onmessage (Some f) s) = onmessage (Some f) s)
    \<and> onmessage (Some f) s =
        (if isFinal f
         then commit_final (text' f) (cancel_silence_timer s)
         else schedule_silence_timer (append_partial (text' f) (cancel_silence_timer s)))
    \<and> pending (cancel_silence_timer s) = {}
    \<and> finalizedTranscription (cancel_silence_timer s) = finalizedTranscription s
    \<and> inProgressTranscription (cancel_silence_timer s) = inProgressTranscription s
    \<and> pending (onmessage (Some f) s) = (if isFinal f then {} else {next_handle s})"
proof -
  have sub: "pending s - set_option (silenceTimerRef s) = {}"
    using assms by (auto simp: timer_inv_def)
  have c1: "pending (cancel_silence_timer s) = {}"
    by (simp only: pending_cancel_silence_timer sub)
  have st: "\<forall>h \<in> pending s.
          h \<notin> pending (onmessage (Some f) s)
          \<and> timer_fires h (onmessage (Some f) s) = onmessage (Some f) s"
    using superseded_not_pending [OF assms] stale_timer_inert [OF assms] by blast
  have after: "pending (onmessage (Some f) s) = (if isFinal f then {} else {next_handle s})"
  proof (cases "isFinal f")
    case True
    have "pending (onmessage (Some f) s) = {}"
      using pending_onmessage_final [OF True, of s] sub by simp
    then show ?thesis using True by simp
  next
    case False
    have "pending (onmessage (Some f) s) = insert (next_handle s) {}"
      by (simp only: pending_onmessage_partial [OF False] sub)
    then show ?thesis using False by simp
  qed
  show ?thesis
    using timer_inv_card [OF timer_inv_run [OF timer_inv_session_start, of evs]]
      timer_inv_run [OF assms, of evs]
      timer_inv_card [OF timer_inv_run [OF assms, of evs]] st
      onmessage_cancels_first [of f s] c1 buffers_cancel_silence_timer [of s] after
    by (intro conjI) (simp_all only:)
qed

theorem one_live_timer_witness:
  "timer_inv (onmessage (Some \<lparr>text' = js ''a'', isFinal = False\<rparr>) session_start)
   \<and> 1 \<in> pending (onmessage (Some \<lparr>text' = js ''a'', isFinal = False\<rparr>) session_start)
   \<and> 1 \<notin> pending
       (onmessage (Some \<lparr>text' = js ''b'', isFinal = False\<rparr>)
          (onmessage (Some \<lparr>text' = js ''a'', isFinal = False\<rparr>) session_start))
   \<and> timer_fires 1
       (onmessage (Some \<lparr>text' = js ''b'', isFinal = False\<rparr>)
          (onmessage (Some \<lparr>text' = js ''a'', isFinal = False\<rparr>) session_start)) =
       onmessage (Some \<lparr>text' = js ''b'', isFinal = False\<rparr>)
          (onmessage (Some \<lparr>text' = js ''a'', isFinal = False\<rparr>) session_start)
   \<and> card (pending
       (run [Message (Some \<lparr>text' = js ''b'', isFinal = True\<rparr>), TimerFires 1, Stop]
          (onmessage (Some \<lparr>text' = js ''a'', isFinal = False\<rparr>) session_start))) \<le> 1"
proof -
  let ?s1 = "onmessage (Some \<lparr>text' = js ''a'', isFinal = False\<rparr>) session_start"
  have s1: "?s1 = \<lparr>finalizedTranscription = [], inProgressTranscription = js ''a'',
    isListening = True, isListeningRef = True, silenceTimerRef = Some 1,
    pending = {1}, next_handle = 2\<rparr>"
    by (simp add: session_start_eq onmessage_def append_partial_def
      cancel_silence_timer_def clearTimeout_def schedule_silence_timer_def setTimeout_def js_def)
  have inv: "timer_inv ?s1"
    unfolding s1 by (simp add: timer_inv_def js_def)
  have m: "1 \<in> pending ?s1"
    unfolding s1 by simp
  show ?thesis
    using inv m
      one_live_timer [OF inv,
        of "[Message (Some \<lparr>text' = js ''b'', isFinal = True\<rparr>), TimerFires 1, Stop]"
           "\<lparr>text' = js ''b'', isFinal = False\<rparr>"]
    by blast
qed

section \<open>The finalized string only grows\<close>

text \<open>
  Claim C10. The finalized string is append-only up to white space: for a server
  message (partial or final), a timer firing, the silence-timeout callback itself,
  \<open>stopListening\<close>, and every sequence of these events, the non-white-space code
  units of the old finalized string are a prefix of those of the new one. No committed
  non-white-space code unit is removed, altered or reordered; only white space is
  trimmed or collapsed.
\<close>

theorem finalized_append_only:
  "prefix (non_ws (finalizedTranscription s)) (non_ws (finalizedTranscription (onmessage m s)))
   \<and> prefix (non_ws (finalizedTranscription s))
        (non_ws (finalizedTranscription (timer_fires h s)))
   \<and> prefix (non_ws (finalizedTranscription s))
        (non_ws (finalizedTranscription (silence_timeout s)))
   \<and> prefix (non_ws (finalizedTranscription s))
        (non_ws (finalizedTranscription (stopListening s)))
   \<and> prefix (non_ws (finalizedTranscription s)) (non_ws (finalizedTranscription (run evs s)))"
proof (intro conjI)
  show "prefix (non_ws (finalizedTranscription s))
      (non_ws (finalizedTranscription (onmessage m s)))"
    using step_finalized_prefix [of s "Message m"] by simp
  show "prefix (non_ws (finalizedTranscription s))
      (non_ws (finalizedTranscription (timer_fires h s)))"
    using step_finalized_prefix [of s "TimerFires h"] by simp
  show "prefix (non_ws (finalizedTranscription s))
      (non_ws (finalizedTranscription (silence_timeout s)))"
    by (simp add: non_ws_finalized_silence_timeout)
  show "prefix (non_ws (finalizedTranscription s))
      (non_ws (finalizedTranscription (stopListening s)))"
    using step_finalized_prefix [of s Stop] by simp
  show "prefix (non_ws (finalizedTranscription s))
      (non_ws (finalizedTranscription (run evs s)))"
    by (rule run_finalized_prefix)
qed

theorem finalized_append_only_witness:
  "prefix (js ''Hello'')
     (non_ws (finalizedTranscription
        (silence_timeout
           (session_start\<lparr>finalizedTranscription := js ''Hello '',
                          inProgressTranscription := js ''  big   world''\<rparr>))))"
  using finalized_append_only
    [of "session_start\<lparr>finalizedTranscription := js ''Hello '',
                          inProgressTranscription := js ''  big   world''\<rparr>"]
  by (simp add: session_start_eq non_ws_def js_def is_ws_def)

section \<open>The audio frame encoder: casts and bytes\<close>

lemma unat_byte_less: "unat (b :: 8 word) < 256"
  using unsigned_less [of b, where 'a = nat] by simp

lemma unat_ucast_byte: "unat (ucast (b :: 8 word) :: 16 word) = unat b"
proof -
  have "unat b < 2 ^ 16"
    using unat_byte_less [of b] by simp
  then show ?thesis
    by (simp add: unsigned_ucast_eq take_bit_nat_eq_self)
qed

lemma fromCharCode_le: "fromCharCode b \<le> 0xFF"
  using unat_byte_less [of b]
  by (simp add: fromCharCode_def word_le_nat_alt unat_ucast_byte)

lemma ucast_fromCharCode: "ucast (fromCharCode b) = b"
  by (simp add: fromCharCode_def ucast_up_ucast_id is_up)

lemma foldl_snoc_map:
  "foldl (\<lambda>binary b. binary @ [f b]) acc bs = acc @ map f bs"
  by (induction bs arbitrary: acc) simp_all

lemma encode_total: "encode bytes = Some (b64_encode bytes)"
proof -
  have bin: "foldl (\<lambda>binary b. binary @ [fromCharCode b]) [] bytes = map fromCharCode bytes"
    by (simp add: foldl_snoc_map)
  have ok: "list_all (\<lambda>c. c \<le> 0xFF) (map fromCharCode bytes)"
    by (induction bytes) (simp_all add: fromCharCode_le)
  have rt: "map ucast (map fromCharCode bytes) = bytes"
    by (induction bytes) (simp_all add: ucast_fromCharCode)
  show ?thesis
    unfolding encode_def bin btoa_def using ok rt by simp
qed

lemma createBlob_total:
  "createBlob samples =
     Some \<lparr>data = b64_encode (uint8_view (fill_int16 samples)),
           mimeType = js ''audio/pcm;rate=16000''\<rparr>"
  by (simp add: createBlob_def encode_total)

lemma int16_bytes_little_endian:
  "int16_bytes w = [of_nat (unat w mod 256), of_nat (unat w div 256)]"
proof -
  have lo: "unat (ucast w :: 8 word) = unat w mod 256"
    by (simp add: unsigned_ucast_eq take_bit_eq_mod)
  have "unat w < 2 ^ 16"
    using unsigned_less [of w, where 'a = nat] by simp
  then have small: "unat w div 256 < 256"
    by simp
  have hi: "unat (ucast (drop_bit 8 w) :: 8 word) = unat w div 256"
    using small
    by (simp add: unsigned_ucast_eq take_bit_eq_mod unat_drop_bit_eq drop_bit_eq_div unat_div)
  have "ucast w = (of_nat (unat (ucast w :: 8 word)) :: 8 word)"
    and "ucast (drop_bit 8 w) = (of_nat (unat (ucast (drop_bit 8 w) :: 8 word)) :: 8 word)"
    by simp_all
  then show ?thesis
    unfolding int16_bytes_def lo hi by simp
qed

lemma uint8_view_little_endian:
  "uint8_view ws = concat (map (\<lambda>w. [of_nat (unat w mod 256), of_nat (unat w div 256)]) ws)"
  unfolding uint8_view_def by (induction ws) (simp_all only: list.map concat.simps int16_bytes_little_endian)

subsection \<open>Truncation and the sixteen-bit range\<close>

lemma js_truncate_range:
  assumes "- 1 \<le> x" and "x < 1"
  shows "- 32768 \<le> js_truncate (x * 32768) \<and> js_truncate (x * 32768) < 32768"
proof (cases "0 \<le> x")
  case True
  then have "0 \<le> x * 32768" by simp
  moreover have "x * 32768 < 32768" using assms(2) by simp
  ultimately show ?thesis
    by (simp add: js_truncate_def floor_less_iff)
next
  case False
  then have neg: "x * 32768 < 0" by simp
  have "- 32768 \<le> x * 32768" using assms(1) by simp
  then have "- 32768 \<le> \<lceil>x * 32768\<rceil>"
    by (simp add: le_ceiling_iff)
  moreover have "\<lceil>x * 32768\<rceil> \<le> 0"
    using neg by (simp add: ceiling_le_iff)
  ultimately show ?thesis
    using neg by (simp add: js_truncate_def)
qed

lemma sint_ToInt16:
  assumes "- 1 \<le> x" and "x < 1"
  shows "sint (ToInt16 (times_32768 (Finite x))) = js_truncate (x * 32768)"
  using js_truncate_range [OF assms]
  by (simp add: sint_sbintrunc' signed_take_bit_int_eq_self)

lemma sint_fill_int16:
  "\<forall>x \<in> set xs. - 1 \<le> x \<and> x < 1 \<Longrightarrow>
   map sint (fill_int16 (map Finite xs)) = map (\<lambda>x. js_truncate (x * 32768)) xs"
  by (induction xs) (simp_all add: fill_int16_def sint_ToInt16 del: ToInt16.simps times_32768.simps)

text \<open>At full scale the product is 32768, which wraps to the most negative value.\<close>

lemma full_scale_wraps: "sint (ToInt16 (times_32768 (Finite 1))) = - 32768"
  by (simp add: js_truncate_def)

subsection \<open>Base64\<close>

lemma index_of_nth:
  "distinct xs \<Longrightarrow> n < length xs \<Longrightarrow> index_of (xs ! n) xs = Some n"
proof (induction xs arbitrary: n)
  case Nil
  then show ?case by simp
next
  case (Cons y ys)
  show ?case
  proof (cases n)
    case 0
    then show ?thesis by simp
  next
    case (Suc k)
    then have k: "k < length ys" using Cons.prems(2) by simp
    have d: "distinct ys" using Cons.prems(1) by simp
    have "ys ! k \<noteq> y"
      using Cons.prems(1) k by (metis distinct.simps(2) nth_mem)
    then show ?thesis
      using Suc Cons.IH [OF d k] by simp
  qed
qed

lemma length_b64_alphabet: "length b64_alphabet = 64"
  by (simp add: b64_alphabet_def js_def)

lemma distinct_b64_alphabet: "distinct b64_alphabet"
  by (simp add: b64_alphabet_def js_def)

lemma PAD_not_digit: "PAD \<notin> set b64_alphabet"
  by (simp add: b64_alphabet_def js_def PAD_def)

lemma b64_value_digit: "n < 64 \<Longrightarrow> b64_value (b64_digit n) = Some n"
  unfolding b64_value_def b64_digit_def
  by (rule index_of_nth [OF distinct_b64_alphabet]) (simp add: length_b64_alphabet)

lemma b64_digit_not_PAD:
  assumes "n < 64"
  shows "b64_digit n \<noteq> PAD"
proof -
  have "b64_alphabet ! n \<in> set b64_alphabet"
    using assms by (intro nth_mem) (simp add: length_b64_alphabet)
  then show ?thesis
    using PAD_not_digit unfolding b64_digit_def by metis
qed

lemma sextets:
  fixes a b c :: nat
  assumes "a < 256" and "b < 256" and "c < 256"
  shows "a div 4 < 64" and "a mod 4 * 16 + b div 16 < 64" and "b mod 16 * 4 + c div 64 < 64"
    and "c mod 64 < 64" and "a mod 4 * 16 < 64" and "b mod 16 * 4 < 64"
  using assms by simp_all

lemma regroup:
  fixes a b c :: nat
  assumes "a < 256" and "b < 256" and "c < 256"
  shows "a div 4 * 4 + (a mod 4 * 16 + b div 16) div 16 = a"
    and "(a mod 4 * 16 + b div 16) mod 16 * 16 + (b mod 16 * 4 + c div 64) div 4 = b"
    and "(b mod 16 * 4 + c div 64) mod 4 * 64 + c mod 64 = c"
    and "a div 4 * 4 + (a mod 4 * 16) div 16 = a"
    and "(a mod 4 * 16 + b div 16) mod 16 * 16 + (b mod 16 * 4) div 4 = b"
  using assms by simp_all

lemma of_nat_unat_byte: "of_nat (unat (a :: 8 word)) = a"
  by simp

lemma decode_group2:
  "p < 64 \<Longrightarrow> q < 64 \<Longrightarrow>
   b64_decode [b64_digit p, b64_digit q, PAD, PAD] = Some [of_nat (p * 4 + q div 16)]"
  by (simp add: b64_value_digit)

lemma decode_group3:
  "p < 64 \<Longrightarrow> q < 64 \<Longrightarrow> r < 64 \<Longrightarrow>
   b64_decode [b64_digit p, b64_digit q, b64_digit r, PAD] =
     Some [of_nat (p * 4 + q div 16), of_nat (q mod 16 * 16 + r div 4)]"
  by (simp add: b64_value_digit b64_digit_not_PAD)

lemma decode_group4:
  "p < 64 \<Longrightarrow> q < 64 \<Longrightarrow> r < 64 \<Longrightarrow> t < 64 \<Longrightarrow>
   b64_decode (b64_digit p # b64_digit q # b64_digit r # b64_digit t # rest) =
     map_option (\<lambda>bs. of_nat (p * 4 + q div 16) # of_nat (q mod 16 * 16 + r div 4)
                    # of_nat (r mod 4 * 64 + t) # bs) (b64_decode rest)"
  by (simp add: b64_value_digit b64_digit_not_PAD)

lemma b64_decode_encode: "b64_decode (b64_encode bytes) = Some bytes"
proof (induction bytes rule: b64_encode.induct)
  case 1
  show ?case by simp
next
  case (2 a)
  note s = sextets [OF unat_byte_less [of a] unat_byte_less [of a] unat_byte_less [of a]]
  note r = regroup [OF unat_byte_less [of a] unat_byte_less [of a] unat_byte_less [of a]]
  have "b64_decode (b64_encode [a]) =
      Some [of_nat (unat a div 4 * 4 + (unat a mod 4 * 16) div 16)]"
    by (simp only: b64_encode.simps decode_group2 [OF s(1) s(5)])
  then show ?case
    by (simp only: r(4) of_nat_unat_byte)
next
  case (3 a b)
  note s = sextets [OF unat_byte_less [of a] unat_byte_less [of b] unat_byte_less [of b]]
  note r = regroup [OF unat_byte_less [of a] unat_byte_less [of b] unat_byte_less [of b]]
  have "b64_decode (b64_encode [a, b]) =
      Some [of_nat (unat a div 4 * 4 + (unat a mod 4 * 16 + unat b div 16) div 16),
            of_nat ((unat a mod 4 * 16 + unat b div 16) mod 16 * 16 + (unat b mod 16 * 4) div 4)]"
    by (simp only: b64_encode.simps decode_group3 [OF s(1) s(2) s(6)])
  then show ?case
    by (simp only: r(1) r(5) of_nat_unat_byte)
next
  case (4 a b c rest)
  note s = sextets [OF unat_byte_less [of a] unat_byte_less [of b] unat_byte_less [of c]]
  note r = regroup [OF unat_byte_less [of a] unat_byte_less [of b] unat_byte_less [of c]]
  have "b64_decode (b64_encode (a # b # c # rest)) =
      map_option
        (\<lambda>bs. of_nat (unat a div 4 * 4 + (unat a mod 4 * 16 + unat b div 16) div 16)
           # of_nat ((unat a mod 4 * 16 + unat b div 16) mod 16 * 16
                + (unat b mod 16 * 4 + unat c div 64) div 4)
           # of_nat ((unat b mod 16 * 4 + unat c div 64) mod 4 * 64 + unat c mod 64) # bs)
        (b64_decode (b64_encode rest))"
    by (simp only: b64_encode.simps append.simps decode_group4 [OF s(1) s(2) s(3) s(4)])
  then show ?case
    by (simp only: r(1) r(2) r(3) of_nat_unat_byte 4 option.map)
qed

subsection \<open>The half-scale frame\<close>

lemma half_scale_blob:
  "createBlob [Finite (1 / 2), Finite (- 1 / 2)] =
     Some \<lparr>data = js ''AEAAwA=='', mimeType = js ''audio/pcm;rate=16000''\<rparr>"
  by (simp add: createBlob_def encode_def btoa_def uint8_view_def int16_bytes_def
      fill_int16_def js_truncate_def fromCharCode_def b64_digit_def b64_alphabet_def PAD_def js_def)

lemma half_scale_bytes:
  "int16_bytes 16384 @ int16_bytes (- 16384) = [0x00, 0x40, 0x00, 0xC0]"
  by (simp add: int16_bytes_def)

lemma half_scale_decode:
  "b64_decode (js ''AEAAwA=='') = Some [0x00, 0x40, 0x00, 0xC0]"
  by (simp add: b64_value_def b64_alphabet_def PAD_def js_def)

lemma half_scale_ints:
  "map sint (fill_int16 [Finite (1 / 2), Finite (- 1 / 2)]) = [16384, - 16384]"
  by (simp add: fill_int16_def js_truncate_def)

section \<open>What the encoder produces\<close>

text \<open>
  The sample \<open>3/131072\<close> (a single-precision value in range) scales to \<open>0.75\<close>:
  the stored element is 0, the nearest integer is 1.
\<close>

theorem createBlob_truncates:
  "- 1 \<le> (3 / 131072 :: real) \<and> (3 / 131072 :: real) \<le> 1
   \<and> map sint (fill_int16 [Finite (3 / 131072)]) = [0]
   \<and> round ((3 / 131072 :: real) * 32768) = 1"
  by (simp add: fill_int16_def js_truncate_def round_def)

text \<open>
  Claim C8, amended. For every sample buffer with samples in \<open>[-1, 1)\<close>, the encoder
  converts each sample to the 16-bit signed integer obtained by truncating
  \<open>sample * 32768\<close> towards zero, serializes the integers as little-endian bytes (low
  byte, then high byte), base64-encodes them (the payload decodes back to these bytes),
  and tags the payload \<open>"audio/pcm;rate=16000"\<close>. For the buffer \<open>[0.5, -0.5]\<close> the
  integers are 16384 and -16384 and the payload is \<open>"AEAAwA=="\<close>, which decodes to
  their little-endian bytes \<open>00 40 00 C0\<close>, with that tag.
\<close>

theorem createBlob_encodes:
  assumes "\<forall>x \<in> set xs. - 1 \<le> x \<and> x < 1"
  shows "map sint (fill_int16 (map Finite xs)) = map (\<lambda>x. js_truncate (x * 32768)) xs
    \<and> createBlob (map Finite xs) =
        Some \<lparr>data = b64_encode (uint8_view (fill_int16 (map Finite xs))),
              mimeType = js ''audio/pcm;rate=16000''\<rparr>
    \<and> uint8_view (fill_int16 (map Finite xs)) =
        concat (map (\<lambda>w. [of_nat (unat w mod 256), of_nat (unat w div 256)])
                  (fill_int16 (map Finite xs)))
    \<and> b64_decode (b64_encode (uint8_view (fill_int16 (map Finite xs)))) =
        Some (uint8_view (fill_int16 (map Finite xs)))
    \<and> createBlob [Finite (1 / 2), Finite (- 1 / 2)] =
        Some \<lparr>data = js ''AEAAwA=='', mimeType = js ''audio/pcm;rate=16000''\<rparr>
    \<and> map sint (fill_int16 [Finite (1 / 2), Finite (- 1 / 2)]) = [16384, - 16384]
    \<and> b64_decode (js ''AEAAwA=='') = Some [0x00, 0x40, 0x00, 0xC0]
    \<and> int16_bytes 16384 @ int16_bytes (- 16384) = [0x00, 0x40, 0x00, 0xC0]"
  using sint_fill_int16 [OF assms] createBlob_total [of "map Finite xs"]
    uint8_view_little_endian [of "fill_int16 (map Finite xs)"]
    b64_decode_encode [of "uint8_view (fill_int16 (map Finite xs))"]
    half_scale_blob half_scale_ints half_scale_decode half_scale_bytes
  by (intro conjI) (simp_all only:)

theorem createBlob_encodes_witness:
  "map sint (fill_int16 (map Finite [- 1, 3 / 131072, - 3 / 4]))
     = [- 32768, 0, - 24576]
   \<and> createBlob (map Finite [- 1, 3 / 131072, - 3 / 4]) =
       Some \<lparr>data = js ''AIAAAACg'', mimeType = js ''audio/pcm;rate=16000''\<rparr>"
proof -
  let ?xs = "[- 1, 3 / 131072, - 3 / 4] :: real list"
  have r: "\<forall>x \<in> set ?xs. - 1 \<le> x \<and> x < 1"
    by simp
  have t: "map (\<lambda>x. js_truncate (x * 32768)) ?xs = [- 32768, 0, - 24576]"
    by (simp add: js_truncate_def)
  have enc: "b64_encode (uint8_view (fill_int16 (map Finite ?xs))) = js ''AIAAAACg''"
    by (simp add: fill_int16_def js_truncate_def uint8_view_def int16_bytes_def
        b64_digit_def b64_alphabet_def js_def)
  from createBlob_encodes [OF r]
  have "map sint (fill_int16 (map Finite ?xs)) = map (\<lambda>x. js_truncate (x * 32768)) ?xs"
    and "createBlob (map Finite ?xs) =
        Some \<lparr>data = b64_encode (uint8_view (fill_int16 (map Finite ?xs))),
              mimeType = js ''audio/pcm;rate=16000''\<rparr>"
    by blast+
  then show ?thesis
    by (simp only: t enc)
qed

end
